theory Spec2Isabelle
  imports Main
begin

section \<open>The archive download endpoint of DowloadZip\<close>

text \<open>
  The repository is \<^verbatim>\<open>index.js\<close>, which routes \<^verbatim>\<open>GET /downloadzip\<close> to
  \<^verbatim>\<open>zipFile.downloadZip\<close>, and \<^verbatim>\<open>zipFile/zipfolder.js\<close>, which defines that handler.
  The handler is translated statement by statement. Every identifier of the source is
  looked up by its name in the lexical scope in which it stands, so that a name no scope
  binds raises a reference error, as it does in JavaScript. A callback is a closure: the
  code of the function together with the scope that was current when it was created.

  What the handler calls (the \<^verbatim>\<open>archiver\<close> package, the response object of Express,
  the event emitters of Node, \<^verbatim>\<open>pipe\<close>) is not code of the repository. It is modelled here
  at the level of its documented interface, as state transformers on one world: the store
  of archiver objects, the store of response objects, the console, the journal of the
  calls made on those objects (the name of the method and the receiver, written when the
  call begins) and the list of the exceptions that no code caught. What the process does
  with such an exception is outside the handler; a run records it and goes on with the
  next event.
\<close>

subsection \<open>Values, errors and closures\<close>

type_synonym bytes = "nat list"

text \<open>A unit of archive output: the record of one file, or the central directory.\<close>

datatype part = FileRecord string bytes | CentralDirectory "string list"

datatype val =
    VUndefined
  | VBool bool
  | VNum nat
  | VStr string
  | VObj "(string \<times> val) list"
  | VErr string
  | VChunk part nat
  | VFunction string
  | VConsole
  | VRequest nat
  | VResponse nat
  | VArchive nat

datatype error =
    ReferenceError string
  | TypeError string
  | HeadersSent
  | WriteAfterEnd
  | UnhandledError string

type_synonym scope = "(string \<times> val) list"

text \<open>
  The three function expressions of \<^verbatim>\<open>downloadZip\<close>, each with the scope it closes
  over, and the three listeners that \<^verbatim>\<open>pipe\<close> installs.
\<close>

datatype listener =
    ArchiveOnError scope
  | ArchiveOnEnd scope
  | ResposeOnClose scope
  | PipeOnData nat
  | PipeOnEnd nat
  | PipeOnClose nat nat

subsection \<open>The file system\<close>

datatype fsnode = File bytes | Unreadable string | Dir "(string \<times> fsnode) list"

type_synonym listing = "(string \<times> fsnode) list"

text \<open>An entry queued in an archive: its name, and its content or the error of reading it.\<close>

type_synonym entry = "string \<times> (string + bytes)"

subsection \<open>Objects and the world\<close>

datatype phase = Building | Completed | Failed

record archive =
  format :: string
  level :: nat
  pending :: "entry list"
  written :: "string list"
  pointer :: nat
  finalized :: bool
  phase :: phase
  listeners :: "(string \<times> listener) list"

datatype body_item = ArchiveBytes part nat | Payload val

record response =
  statusCode :: nat
  headers :: "(string \<times> string) list"
  committed :: "(nat \<times> (string \<times> string) list) option"
  body :: "body_item list"
  finished :: bool
  closed :: bool
  closeListeners :: "listener list"

record world =
  readdir :: "string \<Rightarrow> listing"
  archives :: "archive list"
  responses :: "response list"
  console :: "(string \<times> val) list"
  journal :: "(string \<times> val) list"
  uncaught :: "error list"
  routed :: "error list"

text \<open>
  A JavaScript computation: it changes the world and either returns a value or throws.
  The changes made before a throw stay.
\<close>

type_synonym 'a js = "world \<Rightarrow> (error + 'a) \<times> world"

definition ret :: "'a \<Rightarrow> 'a js" where
  "ret a = (\<lambda>w. (Inr a, w))"

definition throw :: "error \<Rightarrow> 'a js" where
  "throw e = (\<lambda>w. (Inl e, w))"

definition then_js :: "'a js \<Rightarrow> ('a \<Rightarrow> 'b js) \<Rightarrow> 'b js" where
  "then_js m f = (\<lambda>w. case m w of (Inl e, w') \<Rightarrow> (Inl e, w') | (Inr a, w') \<Rightarrow> f a w')"

definition called :: "string \<Rightarrow> val \<Rightarrow> unit js" where
  "called name obj = (\<lambda>w. (Inr (), w\<lparr>journal := journal w @ [(name, obj)]\<rparr>))"

text \<open>An identifier: the innermost binding of the name, or a reference error.\<close>

definition ident :: "scope \<Rightarrow> string \<Rightarrow> val js" where
  "ident sc x = (case map_of sc x of Some v \<Rightarrow> ret v | None \<Rightarrow> throw (ReferenceError x))"

text \<open>
  The globals of Node, and the scope of the module \<^verbatim>\<open>zipfolder.js\<close>: the five names of
  the module wrapper and the one declaration of line 1,
  \<^verbatim>\<open>const archiver = require('archiver')\<close>.
\<close>

definition node_globals :: scope where
  "node_globals =
     [(''console'', VConsole), (''process'', VObj []), (''global'', VObj []),
      (''globalThis'', VObj []), (''Buffer'', VFunction ''Buffer''),
      (''setTimeout'', VFunction ''setTimeout''), (''setInterval'', VFunction ''setInterval''),
      (''setImmediate'', VFunction ''setImmediate''),
      (''clearTimeout'', VFunction ''clearTimeout''),
      (''clearInterval'', VFunction ''clearInterval''),
      (''clearImmediate'', VFunction ''clearImmediate''),
      (''queueMicrotask'', VFunction ''queueMicrotask'')]"

definition module_scope :: scope where
  "module_scope =
     [(''archiver'', VFunction ''archiver''),
      (''exports'', VObj []), (''require'', VFunction ''require''), (''module'', VObj []),
      (''__filename'', VStr ''zipfolder.js''), (''__dirname'', VStr ''zipFile'')]
     @ node_globals"

subsection \<open>Stores and method calls\<close>

definition get_archive :: "nat \<Rightarrow> world \<Rightarrow> archive option" where
  "get_archive a w = (if a < length (archives w) then Some (archives w ! a) else None)"

definition put_archive :: "nat \<Rightarrow> archive \<Rightarrow> world \<Rightarrow> world" where
  "put_archive a A w = w\<lparr>archives := (archives w)[a := A]\<rparr>"

definition get_response :: "nat \<Rightarrow> world \<Rightarrow> response option" where
  "get_response r w = (if r < length (responses w) then Some (responses w ! r) else None)"

definition put_response :: "nat \<Rightarrow> response \<Rightarrow> world \<Rightarrow> world" where
  "put_response r R w = w\<lparr>responses := (responses w)[r := R]\<rparr>"

text \<open>
  A method call: the journal gets the call, and a receiver that is no object of the
  right kind has no such method, which is a type error.
\<close>

definition archive_method ::
  "string \<Rightarrow> val \<Rightarrow> (nat \<Rightarrow> archive \<Rightarrow> val js) \<Rightarrow> val js" where
  "archive_method name obj f =
     then_js (called name obj) (\<lambda>_.
       case obj of
         VArchive a \<Rightarrow>
           (\<lambda>w. case get_archive a w of
                   None \<Rightarrow> (Inl (TypeError name), w)
                 | Some A \<Rightarrow> f a A w)
       | _ \<Rightarrow> throw (TypeError name))"

definition response_method ::
  "string \<Rightarrow> val \<Rightarrow> (nat \<Rightarrow> response \<Rightarrow> val js) \<Rightarrow> val js" where
  "response_method name obj f =
     then_js (called name obj) (\<lambda>_.
       case obj of
         VResponse r \<Rightarrow>
           (\<lambda>w. case get_response r w of
                   None \<Rightarrow> (Inl (TypeError name), w)
                 | Some R \<Rightarrow> f r R w)
       | _ \<Rightarrow> throw (TypeError name))"

subsection \<open>The archiver package\<close>

text \<open>\<^verbatim>\<open>archiver(format, {zlib: {level: n}})\<close>: a new archiver object, in no store before.\<close>

definition new_archive :: "string \<Rightarrow> nat \<Rightarrow> archive" where
  "new_archive fmt lvl =
     \<lparr>format = fmt, level = lvl, pending = [], written = [], pointer = 0,
      finalized = False, phase = Building, listeners = []\<rparr>"

definition archiver :: "val \<Rightarrow> string \<Rightarrow> nat \<Rightarrow> val js" where
  "archiver f fmt lvl =
     then_js (called ''archiver'' f) (\<lambda>_.
       if f = VFunction ''archiver''
       then (\<lambda>w. (Inr (VArchive (length (archives w))),
                   w\<lparr>archives := archives w @ [new_archive fmt lvl]\<rparr>))
       else throw (TypeError ''archiver''))"

text \<open>
  Adding a listener to an emitter, an archive or a response. Of the events of a response
  only \<^verbatim>\<open>'close'\<close> is modelled.
\<close>

definition add_listener :: "val \<Rightarrow> string \<Rightarrow> listener \<Rightarrow> val js" where
  "add_listener obj ev l =
     (case obj of
        VArchive a \<Rightarrow>
          (\<lambda>w. case get_archive a w of
                  None \<Rightarrow> (Inl (TypeError ''on''), w)
                | Some A \<Rightarrow>
                    (Inr obj, put_archive a (A\<lparr>listeners := listeners A @ [(ev, l)]\<rparr>) w))
      | VResponse r \<Rightarrow>
          (\<lambda>w. case get_response r w of
                  None \<Rightarrow> (Inl (TypeError ''on''), w)
                | Some R \<Rightarrow>
                    (if ev = ''close''
                     then (Inr obj,
                           put_response r (R\<lparr>closeListeners := closeListeners R @ [l]\<rparr>) w)
                     else (Inr obj, w)))
      | _ \<Rightarrow> throw (TypeError ''on''))"

text \<open>\<^verbatim>\<open>emitter.on(event, listener)\<close>.\<close>

definition on_event :: "val \<Rightarrow> string \<Rightarrow> listener \<Rightarrow> val js" where
  "on_event obj ev l = then_js (called ''on'' obj) (\<lambda>_. add_listener obj ev l)"

text \<open>
  \<^verbatim>\<open>archive.pipe(dest)\<close>: every chunk of the archive is written to the destination, the
  end of the archive ends the destination, and the destination's closure undoes the pipe.
\<close>

definition pipe :: "val \<Rightarrow> val \<Rightarrow> val js" where
  "pipe src dest =
     then_js (called ''pipe'' src) (\<lambda>_.
       case (src, dest) of
         (VArchive a, VResponse r) \<Rightarrow>
           then_js (add_listener src ''data'' (PipeOnData r)) (\<lambda>_.
           then_js (add_listener src ''end'' (PipeOnEnd r)) (\<lambda>_.
           then_js (add_listener dest ''close'' (PipeOnClose a r)) (\<lambda>_.
           ret dest)))
       | _ \<Rightarrow> throw (TypeError ''pipe''))"

definition unpipe :: "nat \<Rightarrow> nat \<Rightarrow> val js" where
  "unpipe a r =
     then_js (called ''unpipe'' (VArchive a)) (\<lambda>_ w.
       case get_archive a w of
         None \<Rightarrow> (Inr VUndefined, w)
       | Some A \<Rightarrow>
           (Inr VUndefined,
            put_archive a
              (A\<lparr>listeners :=
                   filter (\<lambda>(ev, l). l \<noteq> PipeOnData r \<and> l \<noteq> PipeOnEnd r) (listeners A)\<rparr>)
              w))"

text \<open>
  Modelled from the spec: the traversal of \<^verbatim>\<open>archive.directory\<close>, which is code of the
  archiver package. "Recursively includes all files under the source directory", with
  "stable relative paths from the directory root" and "directory entries flattened": one
  entry for each file, named by its path below the root, in the order of the listings.
\<close>

fun walk_node :: "string \<Rightarrow> fsnode \<Rightarrow> entry list"
  and walk_list :: "string \<Rightarrow> listing \<Rightarrow> entry list" where
  "walk_node p (File c) = [(p, Inr c)]"
| "walk_node p (Unreadable m) = [(p, Inl m)]"
| "walk_node p (Dir kids) = walk_list (p @ ''/'') kids"
| "walk_list p [] = []"
| "walk_list p ((n, k) # ks) = walk_node (p @ n) k @ walk_list p ks"

text \<open>
  The second argument of \<^verbatim>\<open>archive.directory(dirpath, destpath)\<close>: \<^verbatim>\<open>false\<close> puts the
  entries at the root of the archive, a string puts them below that path, and anything
  else puts them below \<^verbatim>\<open>dirpath\<close>.
\<close>

definition as_prefix :: "string \<Rightarrow> string" where
  "as_prefix s = (if s = [] then [] else if last s = CHR ''/'' then s else s @ ''/'')"

definition dest_prefix :: "string \<Rightarrow> val \<Rightarrow> string" where
  "dest_prefix dirpath destpath =
     (case destpath of
        VBool b \<Rightarrow> (if b then as_prefix dirpath else [])
      | VStr s \<Rightarrow> as_prefix s
      | _ \<Rightarrow> as_prefix dirpath)"

definition directory :: "val \<Rightarrow> string \<Rightarrow> val \<Rightarrow> val js" where
  "directory obj dirpath destpath =
     archive_method ''directory'' obj (\<lambda>a A w.
       (Inr obj,
        put_archive a
          (A\<lparr>pending :=
               pending A @ walk_list (dest_prefix dirpath destpath) (readdir w dirpath)\<rparr>)
          w))"

definition finalize :: "val \<Rightarrow> val js" where
  "finalize obj =
     archive_method ''finalize'' obj (\<lambda>a A w.
       (Inr VUndefined, put_archive a (A\<lparr>finalized := True\<rparr>) w))"

definition pointer_of :: "val \<Rightarrow> val js" where
  "pointer_of obj =
     archive_method ''pointer'' obj (\<lambda>a A w. (Inr (VNum (pointer A)), w))"

subsection \<open>The response object\<close>

text \<open>
  The response that Express hands to a handler: status 200, nothing sent. The headers
  that Express sets by itself are left out; \<open>headers\<close> are those the handler sets.
\<close>

definition new_response :: response where
  "new_response =
     \<lparr>statusCode = 200, headers = [], committed = None, body = [],
      finished = False, closed = False, closeListeners = []\<rparr>"

definition set_header ::
  "string \<Rightarrow> string \<Rightarrow> (string \<times> string) list \<Rightarrow> (string \<times> string) list" where
  "set_header k v hs = filter (\<lambda>(k', _). k' \<noteq> k) hs @ [(k, v)]"

definition content_disposition :: "string \<Rightarrow> string" where
  "content_disposition filename = ''attachment; filename=\"'' @ filename @ ''\"''"

text \<open>\<^verbatim>\<open>res.attachment(filename)\<close>: a header, which cannot be set once the headers went out.\<close>

definition attachment :: "val \<Rightarrow> string \<Rightarrow> val js" where
  "attachment obj filename =
     response_method ''attachment'' obj (\<lambda>r R w.
       if committed R \<noteq> None then (Inl HeadersSent, w)
       else (Inr obj,
             put_response r
               (R\<lparr>headers :=
                    set_header ''Content-Disposition'' (content_disposition filename)
                      (headers R)\<rparr>)
               w))"

text \<open>\<^verbatim>\<open>res.status(code)\<close> only assigns the status code that a later commit will send.\<close>

definition status :: "val \<Rightarrow> nat \<Rightarrow> val js" where
  "status obj code =
     response_method ''status'' obj (\<lambda>r R w.
       (Inr obj, put_response r (R\<lparr>statusCode := code\<rparr>) w))"

text \<open>
  The first write of the body commits the status line and the headers as they are then.
\<close>

definition commit :: "response \<Rightarrow> response" where
  "commit R =
     (case committed R of
        None \<Rightarrow> R\<lparr>committed := Some (statusCode R, headers R)\<rparr>
      | Some _ \<Rightarrow> R)"

text \<open>
  \<^verbatim>\<open>res.send(payload)\<close> sets headers of its own, so it throws when the headers went out;
  otherwise it sends the payload as the whole body and ends the response.
\<close>

definition send :: "val \<Rightarrow> val \<Rightarrow> val js" where
  "send obj payload =
     response_method ''send'' obj (\<lambda>r R w.
       if committed R \<noteq> None then (Inl HeadersSent, w)
       else (Inr obj,
             put_response r ((commit R)\<lparr>body := [Payload payload], finished := True\<rparr>) w))"

definition end_response :: "val \<Rightarrow> val js" where
  "end_response obj =
     response_method ''end'' obj (\<lambda>r R w.
       (Inr obj, put_response r ((commit R)\<lparr>finished := True\<rparr>) w))"

definition write_chunk :: "nat \<Rightarrow> val \<Rightarrow> val js" where
  "write_chunk r chunk =
     response_method ''write'' (VResponse r) (\<lambda>r R w.
       if finished R then (Inl WriteAfterEnd, w)
       else (case chunk of
               VChunk p n \<Rightarrow>
                 (Inr (VBool True),
                  put_response r ((commit R)\<lparr>body := body R @ [ArchiveBytes p n]\<rparr>) w)
             | _ \<Rightarrow> (Inl (TypeError ''write''), w)))"

subsection \<open>The console and property access\<close>

definition console_log :: "val \<Rightarrow> string \<Rightarrow> val \<Rightarrow> val js" where
  "console_log c fmt arg =
     then_js (called ''log'' c) (\<lambda>_.
       if c = VConsole
       then (\<lambda>w. (Inr VUndefined, w\<lparr>console := console w @ [(fmt, arg)]\<rparr>))
       else throw (TypeError ''log''))"

definition member :: "val \<Rightarrow> string \<Rightarrow> val js" where
  "member v name =
     (case v of
        VUndefined \<Rightarrow> throw (TypeError name)
      | VErr m \<Rightarrow> ret (if name = ''message'' then VStr m else VUndefined)
      | VObj props \<Rightarrow> ret (case map_of props name of Some x \<Rightarrow> x | None \<Rightarrow> VUndefined)
      | _ \<Rightarrow> ret VUndefined)"

subsection \<open>zipfolder.js\<close>

text \<open>
  Lines 9 to 11:
  \<^verbatim>\<open>function(err) { respose.status(500).send({error: err.message}); }\<close>
\<close>

definition archive_on_error :: "scope \<Rightarrow> val \<Rightarrow> val js" where
  "archive_on_error outer err =
     (let sc = (''err'', err) # outer in
      then_js (ident sc ''respose'') (\<lambda>respose.
      then_js (status respose 500) (\<lambda>r.
      then_js (ident sc ''err'') (\<lambda>e.
      then_js (member e ''message'') (\<lambda>m.
      then_js (send r (VObj [(''error'', m)])) (\<lambda>_.
      ret VUndefined))))))"

text \<open>
  Lines 14 to 16:
  \<^verbatim>\<open>function() { console.log('Archive wrote %d bytes', archive.pointer()); }\<close>
\<close>

definition archive_on_end :: "scope \<Rightarrow> val js" where
  "archive_on_end sc =
     then_js (ident sc ''console'') (\<lambda>c.
     then_js (ident sc ''archive'') (\<lambda>archive.
     then_js (pointer_of archive) (\<lambda>n.
     then_js (console_log c ''Archive wrote %d bytes'' n) (\<lambda>_.
     ret VUndefined))))"

text \<open>
  Lines 25 to 28:
  \<^verbatim>\<open>function() { console.log('Archive wrote %d bytes', archive.pointer());
                return res.status(200).send('OK').end(); }\<close>
\<close>

definition respose_on_close :: "scope \<Rightarrow> val js" where
  "respose_on_close sc =
     then_js (ident sc ''console'') (\<lambda>c.
     then_js (ident sc ''archive'') (\<lambda>archive.
     then_js (pointer_of archive) (\<lambda>n.
     then_js (console_log c ''Archive wrote %d bytes'' n) (\<lambda>_.
     then_js (ident sc ''res'') (\<lambda>res.
     then_js (status res 200) (\<lambda>r.
     then_js (send r (VStr ''OK'')) (\<lambda>r'.
     end_response r')))))))"

text \<open>
  Lines 3 to 31, the exported handler. Its scope holds the two parameters and the
  variable \<^verbatim>\<open>archive\<close>, above the scope of the module.
\<close>

definition downloadZip :: "val \<Rightarrow> val \<Rightarrow> val js" where
  "downloadZip request respose =
     (let params = [(''request'', request), (''respose'', respose)] @ module_scope in
      then_js (ident params ''archiver'') (\<lambda>f.
      then_js (archiver f ''zip'' 9) (\<lambda>created.
      let sc = (''archive'', created) # params in
      then_js (ident sc ''archive'') (\<lambda>archive.
      then_js (on_event archive ''error'' (ArchiveOnError sc)) (\<lambda>_.
      then_js (ident sc ''archive'') (\<lambda>archive.
      then_js (on_event archive ''end'' (ArchiveOnEnd sc)) (\<lambda>_.
      then_js (ident sc ''respose'') (\<lambda>respose.
      then_js (attachment respose ''folder.zip'') (\<lambda>_.
      then_js (ident sc ''archive'') (\<lambda>archive.
      then_js (ident sc ''respose'') (\<lambda>respose.
      then_js (pipe archive respose) (\<lambda>_.
      then_js (ident sc ''archive'') (\<lambda>archive.
      then_js (directory archive ''Test/'' (VBool False)) (\<lambda>_.
      then_js (ident sc ''archive'') (\<lambda>archive.
      then_js (finalize archive) (\<lambda>_.
      then_js (ident sc ''respose'') (\<lambda>respose.
      then_js (on_event respose ''close'' (ResposeOnClose sc)) (\<lambda>_.
      ret VUndefined))))))))))))))))))"

subsection \<open>Events\<close>

fun call_listener :: "listener \<Rightarrow> val \<Rightarrow> val js" where
  "call_listener (ArchiveOnError sc) arg = archive_on_error sc arg"
| "call_listener (ArchiveOnEnd sc) arg = archive_on_end sc"
| "call_listener (ResposeOnClose sc) arg = respose_on_close sc"
| "call_listener (PipeOnData r) arg = write_chunk r arg"
| "call_listener (PipeOnEnd r) arg = end_response (VResponse r)"
| "call_listener (PipeOnClose a r) arg = unpipe a r"

text \<open>
  \<^verbatim>\<open>emit\<close> calls the listeners in the order of their registration. An exception of a
  listener leaves \<^verbatim>\<open>emit\<close>, so the listeners after it are not called, and nothing above
  catches it.
\<close>

fun emit :: "listener list \<Rightarrow> val \<Rightarrow> world \<Rightarrow> world" where
  "emit [] arg w = w"
| "emit (l # ls) arg w =
     (case call_listener l arg w of
        (Inl e, w') \<Rightarrow> w'\<lparr>uncaught := uncaught w' @ [e]\<rparr>
      | (Inr _, w') \<Rightarrow> emit ls arg w')"

definition listeners_for :: "string \<Rightarrow> archive \<Rightarrow> listener list" where
  "listeners_for ev A = map snd (filter (\<lambda>(ev', _). ev' = ev) (listeners A))"

text \<open>An \<^verbatim>\<open>'error'\<close> event that has no listener is thrown.\<close>

definition emit_error :: "nat \<Rightarrow> string \<Rightarrow> world \<Rightarrow> world" where
  "emit_error a msg w =
     (case get_archive a w of
        None \<Rightarrow> w
      | Some A \<Rightarrow>
          (if listeners_for ''error'' A = []
           then w\<lparr>uncaught := uncaught w @ [UnhandledError msg]\<rparr>
           else emit (listeners_for ''error'' A) (VErr msg) w))"

definition emit_archive :: "nat \<Rightarrow> string \<Rightarrow> val \<Rightarrow> world \<Rightarrow> world" where
  "emit_archive a ev arg w =
     (case get_archive a w of
        None \<Rightarrow> w
      | Some A \<Rightarrow> emit (listeners_for ev A) arg w)"

text \<open>
  Modelled from the spec: one unit of the archiver's work, which is code of the archiver
  package. "Bytes are pushed to the sink as soon as each file's compressed data is
  ready"; "once all directory entries have been written and the archive's trailing
  metadata (central directory record) is appended, the streamer finalizes the archive,
  signaling end-of-stream"; "any error during traversal, compression, or writing aborts
  the operation", and in \<open>Failed\<close> "no further writes occur". The number of bytes that
  compression makes of a unit is given with the event.
\<close>

definition work :: "nat \<Rightarrow> nat \<Rightarrow> world \<Rightarrow> world" where
  "work a n w =
     (case get_archive a w of
        None \<Rightarrow> w
      | Some A \<Rightarrow>
          (if phase A \<noteq> Building then w
           else (case pending A of
                   (name, Inr content) # rest \<Rightarrow>
                     emit_archive a ''data'' (VChunk (FileRecord name content) n)
                       (put_archive a
                          (A\<lparr>pending := rest, written := written A @ [name],
                             pointer := pointer A + n\<rparr>) w)
                 | (name, Inl msg) # rest \<Rightarrow>
                     emit_error a msg (put_archive a (A\<lparr>phase := Failed\<rparr>) w)
                 | [] \<Rightarrow>
                     (if finalized A
                      then emit_archive a ''end'' VUndefined
                             (emit_archive a ''data'' (VChunk (CentralDirectory (written A)) n)
                                (put_archive a
                                   (A\<lparr>phase := Completed, pointer := pointer A + n\<rparr>) w))
                      else w))))"

text \<open>The response reports its closure once, to the listeners of \<^verbatim>\<open>'close'\<close>.\<close>

definition close :: "nat \<Rightarrow> world \<Rightarrow> world" where
  "close r w =
     (case get_response r w of
        None \<Rightarrow> w
      | Some R \<Rightarrow>
          (if closed R then w
           else emit (closeListeners R) VUndefined (put_response r (R\<lparr>closed := True\<rparr>) w)))"

text \<open>
  \<^verbatim>\<open>index.js\<close>, line 10: \<^verbatim>\<open>app.get('/downloadzip', zipFile.downloadZip)\<close>. For each
  request Express makes a new request and a new response and calls the handler with
  them; an exception that the handler throws while it runs goes to the error middleware.
\<close>

definition get_downloadzip :: "world \<Rightarrow> world" where
  "get_downloadzip w =
     (let r = length (responses w) in
      case downloadZip (VRequest r) (VResponse r)
             (w\<lparr>responses := responses w @ [new_response]\<rparr>) of
        (Inl e, w') \<Rightarrow> w'\<lparr>routed := routed w' @ [e]\<rparr>
      | (Inr _, w') \<Rightarrow> w')"

datatype event = Get | Work nat nat | Close nat

fun step :: "event \<Rightarrow> world \<Rightarrow> world" where
  "step Get w = get_downloadzip w"
| "step (Work a n) w = work a n w"
| "step (Close r) w = close r w"

fun run :: "event list \<Rightarrow> world \<Rightarrow> world" where
  "run [] w = w"
| "run (e # es) w = run es (step e w)"

text \<open>A server that has served nothing yet, over a given file system.\<close>

definition boot :: "(string \<Rightarrow> listing) \<Rightarrow> world" where
  "boot fs =
     \<lparr>readdir = fs, archives = [], responses = [], console = [], journal = [],
      uncaught = [], routed = []\<rparr>"

section \<open>What one request leaves in the world\<close>

text \<open>
  The scope of the handler for the request that created archive \<open>a\<close> and got response
  \<open>r\<close>: the three closures of \<^verbatim>\<open>downloadZip\<close> close over it.
\<close>

definition request_scope :: "nat \<Rightarrow> nat \<Rightarrow> scope" where
  "request_scope a r =
     (''archive'', VArchive a) # (''request'', VRequest r) # (''respose'', VResponse r)
     # module_scope"

definition own_listeners :: "nat \<Rightarrow> nat \<Rightarrow> (string \<times> listener) list" where
  "own_listeners a r =
     [(''error'', ArchiveOnError (request_scope a r)),
      (''end'', ArchiveOnEnd (request_scope a r))]"

definition pipe_listeners :: "nat \<Rightarrow> (string \<times> listener) list" where
  "pipe_listeners r = [(''data'', PipeOnData r), (''end'', PipeOnEnd r)]"

definition handler_archive :: "nat \<Rightarrow> nat \<Rightarrow> entry list \<Rightarrow> archive" where
  "handler_archive a r es =
     \<lparr>format = ''zip'', level = 9, pending = es, written = [], pointer = 0,
      finalized = True, phase = Building,
      listeners = own_listeners a r @ pipe_listeners r\<rparr>"

definition disposition :: "string \<times> string" where
  "disposition = (''Content-Disposition'', content_disposition ''folder.zip'')"

definition handler_response :: "nat \<Rightarrow> nat \<Rightarrow> response" where
  "handler_response a r =
     \<lparr>statusCode = 200, headers = [disposition],
      committed = None, body = [], finished = False, closed = False,
      closeListeners = [PipeOnClose a r, ResposeOnClose (request_scope a r)]\<rparr>"

definition handler_calls :: "nat \<Rightarrow> nat \<Rightarrow> (string \<times> val) list" where
  "handler_calls a r =
     [(''archiver'', VFunction ''archiver''), (''on'', VArchive a), (''on'', VArchive a),
      (''attachment'', VResponse r), (''pipe'', VArchive a), (''directory'', VArchive a),
      (''finalize'', VArchive a), (''on'', VResponse r)]"

text \<open>The entries of files that can be read, and the chunks that their records make.\<close>

definition readable :: "(string \<times> bytes) list \<Rightarrow> entry list" where
  "readable fs = map (\<lambda>(name, c). (name, Inr c)) fs"

definition file_chunks :: "(string \<times> bytes) list \<Rightarrow> nat list \<Rightarrow> body_item list" where
  "file_chunks fs ns = map (\<lambda>((name, c), n). ArchiveBytes (FileRecord name c) n) (zip fs ns)"

text \<open>What a client extracts from a body: the files of its records, in their order.\<close>

fun extracted :: "body_item list \<Rightarrow> (string \<times> bytes) list" where
  "extracted [] = []"
| "extracted (ArchiveBytes (FileRecord name c) n # bs) = (name, c) # extracted bs"
| "extracted (b # bs) = extracted bs"


text \<open>
  The files of a directory: a file stands at the path of the names that lead to it from the
  listing of the directory, and the path is written with slashes.
\<close>

inductive file_at :: "listing \<Rightarrow> string list \<Rightarrow> bytes \<Rightarrow> bool" where
  here: "(n, File c) \<in> set l \<Longrightarrow> file_at l [n] c"
| below: "(n, Dir kids) \<in> set l \<Longrightarrow> file_at kids p c \<Longrightarrow> file_at l (n # p) c"

fun join_path :: "string list \<Rightarrow> string" where
  "join_path [] = []"
| "join_path [n] = n"
| "join_path (n # m # p) = n @ ''/'' @ join_path (m # p)"

text \<open>
  What no step of a run undoes. Of a response: its headers and its listeners stay, what
  was committed stays committed, a commit sends the headers as they are, and without a
  commit the body does not change. Of an archive: its format and its level stay, and it
  gets no new listeners. The stores only grow.
\<close>

definition resp_evolves :: "response \<Rightarrow> response \<Rightarrow> bool" where
  "resp_evolves R R' =
     (headers R' = headers R \<and> closeListeners R' = closeListeners R \<and>
      (case committed R of
         Some c \<Rightarrow> committed R' = Some c
       | None \<Rightarrow>
           (case committed R' of
              None \<Rightarrow> body R' = body R
            | Some (s, hs) \<Rightarrow> hs = headers R)))"

definition arch_evolves :: "archive \<Rightarrow> archive \<Rightarrow> bool" where
  "arch_evolves A A' =
     (format A' = format A \<and> level A' = level A \<and>
      set (listeners A') \<subseteq> set (listeners A))"

definition evolves :: "world \<Rightarrow> world \<Rightarrow> bool" where
  "evolves w w' =
     (length (archives w) \<le> length (archives w') \<and>
      length (responses w) \<le> length (responses w') \<and>
      (\<forall>i < length (responses w). resp_evolves (responses w ! i) (responses w' ! i)) \<and>
      (\<forall>i < length (archives w). arch_evolves (archives w ! i) (archives w' ! i)))"

definition tracks :: "'a js \<Rightarrow> bool" where
  "tracks m = (\<forall>w. evolves w (snd (m w)))"

text \<open>A listener that changes an archive, and a computation that leaves a part of the world as it is.\<close>

fun pipe_close :: "listener \<Rightarrow> bool" where
  "pipe_close (PipeOnClose a r) = True"
| "pipe_close l = False"

definition keeps :: "(world \<Rightarrow> 'b) \<Rightarrow> 'a js \<Rightarrow> bool" where
  "keeps field m = (\<forall>w. field (snd (m w)) = field w)"

text \<open>Four source directories, and runs over them.\<close>

definition disk_two_files :: "string \<Rightarrow> listing" where
  "disk_two_files d =
     (if d = ''Test/'' then [(''a.txt'', File [97]), (''sub'', Dir [(''b.txt'', File [98])])]
      else [])"

definition disk_second_unreadable :: "string \<Rightarrow> listing" where
  "disk_second_unreadable d =
     (if d = ''Test/''
      then [(''a.txt'', File [97]), (''b.txt'', Unreadable ''EACCES: permission denied'')]
      else [])"

definition disk_first_unreadable :: "string \<Rightarrow> listing" where
  "disk_first_unreadable d =
     (if d = ''Test/''
      then [(''a.txt'', Unreadable ''EACCES: permission denied''), (''b.txt'', File [98])]
      else [])"

definition disk_empty :: "string \<Rightarrow> listing" where
  "disk_empty d = []"

text \<open>The second file fails after the record of the first went to the response.\<close>

definition partial_failure :: world where
  "partial_failure = run [Get, Work 0 10, Work 0 0] (boot disk_second_unreadable)"

text \<open>An empty source directory, served and closed.\<close>

definition empty_served :: world where
  "empty_served = run [Get, Work 0 22, Close 0] (boot disk_empty)"



section \<open>Properties\<close>

subsection \<open>Computations, stores and commits\<close>

lemma ret_apply [simp]: "ret a w = (Inr a, w)"
  by (simp add: ret_def)

lemma throw_apply [simp]: "throw e w = (Inl e, w)"
  by (simp add: throw_def)

lemma called_apply [simp]:
  "called name obj w = (Inr (), w\<lparr>journal := journal w @ [(name, obj)]\<rparr>)"
  by (simp add: called_def)

lemma then_js_apply:
  "then_js m f w = (case m w of (Inl e, w') \<Rightarrow> (Inl e, w') | (Inr a, w') \<Rightarrow> f a w')"
  by (simp add: then_js_def)

lemma module_scope_names [simp]:
  "map_of module_scope ''archiver'' = Some (VFunction ''archiver'')"
  "map_of module_scope ''console'' = Some VConsole"
  "map_of module_scope ''res'' = None"
  "map_of module_scope ''err'' = None"
  "map_of module_scope ''archive'' = None"
  "map_of module_scope ''respose'' = None"
  "map_of module_scope ''request'' = None"
  by (simp_all add: module_scope_def node_globals_def)

lemma commit_simps [simp]:
  "finished (commit R) = finished R"
  "body (commit R) = body R"
  "closed (commit R) = closed R"
  "closeListeners (commit R) = closeListeners R"
  "headers (commit R) = headers R"
  "statusCode (commit R) = statusCode R"
  "commit (commit R) = commit R"
  "commit (R\<lparr>body := b\<rparr>) = (commit R)\<lparr>body := b\<rparr>"
  "commit (R\<lparr>finished := f\<rparr>) = (commit R)\<lparr>finished := f\<rparr>"
  "commit (R\<lparr>closed := c\<rparr>) = (commit R)\<lparr>closed := c\<rparr>"
  by (simp_all add: commit_def split: option.splits)

lemma run_append: "run (es @ es') w = run es' (run es w)"
  by (induction es arbitrary: w) simp_all

lemmas prims =
  then_js_apply ident_def archive_method_def response_method_def status_def send_def
  end_response_def write_chunk_def pointer_of_def console_log_def member_def unpipe_def
  archive_on_error_def archive_on_end_def respose_on_close_def Let_def
  listeners_for_def emit_archive_def emit_error_def
  get_archive_def get_response_def put_archive_def put_response_def
  own_listeners_def pipe_listeners_def request_scope_def

subsection \<open>The handler\<close>

lemma downloadZip_fresh:
  assumes "r = length (responses w)"
  shows "downloadZip (VRequest r) (VResponse r) (w\<lparr>responses := responses w @ [new_response]\<rparr>) =
     (Inr VUndefined,
      w\<lparr>archives := archives w @
           [handler_archive (length (archives w)) r (walk_list [] (readdir w ''Test/''))],
        responses := responses w @ [handler_response (length (archives w)) r],
        journal := journal w @ handler_calls (length (archives w)) r\<rparr>)"
  using assms
  by (simp add: downloadZip_def then_js_apply ident_def archiver_def on_event_def
      add_listener_def pipe_def attachment_def response_method_def archive_method_def
      directory_def finalize_def get_archive_def put_archive_def get_response_def
      put_response_def new_response_def new_archive_def set_header_def dest_prefix_def
      own_listeners_def pipe_listeners_def handler_archive_def handler_response_def
      handler_calls_def request_scope_def disposition_def nth_append Let_def)

lemma get_downloadzip_eq:
  "get_downloadzip w =
     w\<lparr>archives := archives w @
          [handler_archive (length (archives w)) (length (responses w))
             (walk_list [] (readdir w ''Test/''))],
       responses := responses w @
          [handler_response (length (archives w)) (length (responses w))],
       journal := journal w @ handler_calls (length (archives w)) (length (responses w))\<rparr>"
  by (simp add: get_downloadzip_def downloadZip_fresh Let_def)

subsection \<open>One unit of work, and the closure of the response\<close>

lemma work_file:
  assumes "a < length (archives w)" "archives w ! a = A" "phase A = Building"
    and "listeners A = own_listeners a r @ pipe_listeners r"
    and "pending A = (name, Inr c) # rest"
    and "r < length (responses w)" "responses w ! r = R" "\<not> finished R"
  shows "work a n w =
     w\<lparr>archives := (archives w)[a := A\<lparr>pending := rest, written := written A @ [name],
                                         pointer := pointer A + n\<rparr>],
       responses := (responses w)
         [r := (commit R)\<lparr>body := body R @ [ArchiveBytes (FileRecord name c) n]\<rparr>],
       journal := journal w @ [(''write'', VResponse r)]\<rparr>"
  using assms by (simp add: work_def prims)


lemma work_broken_first:
  assumes "a < length (archives w)" "archives w ! a = A" "phase A = Building"
    and "listeners A = own_listeners a r @ pipe_listeners r"
    and "pending A = (name, Inl msg) # rest"
    and "r < length (responses w)" "responses w ! r = R" "committed R = None"
  shows "work a n w =
     w\<lparr>archives := (archives w)[a := A\<lparr>phase := Failed\<rparr>],
       responses := (responses w)
         [r := R\<lparr>statusCode := 500, committed := Some (500, headers R),
                 body := [Payload (VObj [(''error'', VStr msg)])], finished := True\<rparr>],
       journal := journal w @ [(''status'', VResponse r), (''send'', VResponse r)]\<rparr>"
  using assms by (simp add: work_def prims commit_def)


lemma work_last:
  assumes "a < length (archives w)" "archives w ! a = A" "phase A = Building" "finalized A"
    and "listeners A = own_listeners a r @ pipe_listeners r"
    and "pending A = []"
    and "r < length (responses w)" "responses w ! r = R" "\<not> finished R"
  shows "work a n w =
     w\<lparr>archives := (archives w)[a := A\<lparr>phase := Completed, pointer := pointer A + n\<rparr>],
       responses := (responses w)
         [r := (commit R)\<lparr>body := body R @ [ArchiveBytes (CentralDirectory (written A)) n],
                          finished := True\<rparr>],
       console := console w @ [(''Archive wrote %d bytes'', VNum (pointer A + n))],
       journal := journal w @ [(''write'', VResponse r), (''pointer'', VArchive a),
                               (''log'', VConsole), (''end'', VResponse r)]\<rparr>"
  using assms by (simp add: work_def prims commit_def split: option.splits)



subsection \<open>The files that can be read, one unit of work each\<close>

lemma works_files:
  assumes "a < length (archives w)" "archives w ! a = A" "phase A = Building"
    and "listeners A = own_listeners a r @ pipe_listeners r"
    and "pending A = readable fs @ rest"
    and "r < length (responses w)" "responses w ! r = R" "\<not> finished R"
    and "length ns = length fs"
  shows "run (map (Work a) ns) w =
     w\<lparr>archives := (archives w)[a := A\<lparr>pending := rest, written := written A @ map fst fs,
                                         pointer := pointer A + sum_list ns\<rparr>],
       responses := (responses w)
         [r := (if fs = [] then R else (commit R)\<lparr>body := body R @ file_chunks fs ns\<rparr>)],
       journal := journal w @ replicate (length fs) (''write'', VResponse r)\<rparr>"
  using assms
proof (induction fs arbitrary: w A R ns)
  case Nil
  then show ?case by (auto simp: readable_def)
next
  case (Cons f fs)
  obtain name c where f: "f = (name, c)" by (cases f)
  obtain n ns' where ns: "ns = n # ns'" using Cons.prems(9) by (cases ns) auto
  let ?A = "A\<lparr>pending := readable fs @ rest, written := written A @ [name],
               pointer := pointer A + n\<rparr>"
  let ?R = "(commit R)\<lparr>body := body R @ [ArchiveBytes (FileRecord name c) n]\<rparr>"
  let ?w = "w\<lparr>archives := (archives w)[a := ?A], responses := (responses w)[r := ?R],
              journal := journal w @ [(''write'', VResponse r)]\<rparr>"
  have step: "work a n w = ?w"
    using Cons.prems by (intro work_file) (simp_all add: f readable_def)
  have "run (map (Work a) ns') ?w =
     ?w\<lparr>archives := (archives ?w)
          [a := ?A\<lparr>pending := rest, written := written ?A @ map fst fs,
                    pointer := pointer ?A + sum_list ns'\<rparr>],
       responses := (responses ?w)
          [r := (if fs = [] then ?R else (commit ?R)\<lparr>body := body ?R @ file_chunks fs ns'\<rparr>)],
       journal := journal ?w @ replicate (length fs) (''write'', VResponse r)\<rparr>"
    using Cons.prems ns by (intro Cons.IH) simp_all
  then show ?case
    by (simp add: ns f step file_chunks_def replicate_append_same ac_simps)
qed

lemma boot_simps [simp]:
  "archives (boot fs) = []" "responses (boot fs) = []" "readdir (boot fs) = fs"
  "console (boot fs) = []" "journal (boot fs) = []" "uncaught (boot fs) = []"
  "routed (boot fs) = []"
  by (simp_all add: boot_def)

lemma handler_archive_simps [simp]:
  "phase (handler_archive a r es) = Building"
  "finalized (handler_archive a r es)"
  "pending (handler_archive a r es) = es"
  "written (handler_archive a r es) = []"
  "pointer (handler_archive a r es) = 0"
  "level (handler_archive a r es) = 9"
  "format (handler_archive a r es) = ''zip''"
  "listeners (handler_archive a r es) = own_listeners a r @ pipe_listeners r"
  by (simp_all add: handler_archive_def)

lemma handler_response_simps [simp]:
  "statusCode (handler_response a r) = 200"
  "headers (handler_response a r) = [disposition]"
  "committed (handler_response a r) = None"
  "body (handler_response a r) = []"
  "\<not> finished (handler_response a r)"
  "\<not> closed (handler_response a r)"
  "closeListeners (handler_response a r) = [PipeOnClose a r, ResposeOnClose (request_scope a r)]"
  by (simp_all add: handler_response_def)

lemmas evaluate =
  get_downloadzip_eq work_def close_def prims handler_archive_def handler_response_def
  commit_def

subsection \<open>A request served without interleaving\<close>

lemma run_snoc: "run (es @ [e]) w = step e (run es w)"
  by (simp add: run_append)

lemma served_files:
  assumes "walk_list [] (readdir w ''Test/'') = readable fs @ rest" "length ns = length fs"
  shows "run (Get # map (Work (length (archives w))) ns) w =
     w\<lparr>archives := archives w @
          [(handler_archive (length (archives w)) (length (responses w)) rest)
             \<lparr>written := map fst fs, pointer := sum_list ns\<rparr>],
       responses := responses w @
          [if fs = [] then handler_response (length (archives w)) (length (responses w))
           else (handler_response (length (archives w)) (length (responses w)))
                  \<lparr>committed := Some (200, [disposition]), body := file_chunks fs ns\<rparr>],
       journal := journal w @ handler_calls (length (archives w)) (length (responses w))
                  @ replicate (length fs) (''write'', VResponse (length (responses w)))\<rparr>"
proof -
  let ?a = "length (archives w)" and ?r = "length (responses w)"
  let ?w = "get_downloadzip w"
  let ?A = "handler_archive ?a ?r (readable fs @ rest)"
  let ?R = "handler_response ?a ?r"
  have "run (map (Work ?a) ns) ?w =
     ?w\<lparr>archives := (archives ?w)[?a := ?A\<lparr>pending := rest, written := written ?A @ map fst fs,
                                         pointer := pointer ?A + sum_list ns\<rparr>],
       responses := (responses ?w)
         [?r := (if fs = [] then ?R else (commit ?R)\<lparr>body := body ?R @ file_chunks fs ns\<rparr>)],
       journal := journal ?w @ replicate (length fs) (''write'', VResponse ?r)\<rparr>"
    by (rule works_files) (simp_all add: get_downloadzip_eq assms)
  then show ?thesis
    by (simp add: get_downloadzip_eq handler_archive_def commit_def)
qed

lemma served_all:
  assumes "walk_list [] (readdir w ''Test/'') = readable fs" "length ns = length fs"
  shows "run (Get # map (Work (length (archives w))) ns @ [Work (length (archives w)) m]) w =
     w\<lparr>archives := archives w @
          [(handler_archive (length (archives w)) (length (responses w)) [])
             \<lparr>written := map fst fs, pointer := sum_list ns + m, phase := Completed\<rparr>],
       responses := responses w @
          [(handler_response (length (archives w)) (length (responses w)))
             \<lparr>committed := Some (200, [disposition]),
              body := file_chunks fs ns @ [ArchiveBytes (CentralDirectory (map fst fs)) m],
              finished := True\<rparr>],
       console := console w @ [(''Archive wrote %d bytes'', VNum (sum_list ns + m))],
       journal := journal w @ handler_calls (length (archives w)) (length (responses w))
                  @ replicate (length fs) (''write'', VResponse (length (responses w)))
                  @ [(''write'', VResponse (length (responses w))),
                     (''pointer'', VArchive (length (archives w))),
                     (''log'', VConsole), (''end'', VResponse (length (responses w)))]\<rparr>"
proof -
  let ?a = "length (archives w)" and ?r = "length (responses w)"
  let ?v = "run (map (Work ?a) ns) (get_downloadzip w)"
  have v: "?v = w\<lparr>archives := archives w @
          [(handler_archive ?a ?r []) \<lparr>written := map fst fs, pointer := sum_list ns\<rparr>],
       responses := responses w @
          [if fs = [] then handler_response ?a ?r
           else (handler_response ?a ?r)
                  \<lparr>committed := Some (200, [disposition]), body := file_chunks fs ns\<rparr>],
       journal := journal w @ handler_calls ?a ?r
                  @ replicate (length fs) (''write'', VResponse ?r)\<rparr>"
    using served_files [of w fs "[]" ns] assms by simp
  have "run (Get # map (Work ?a) ns @ [Work ?a m]) w = work ?a m ?v"
    using run_snoc [of "Get # map (Work ?a) ns" "Work ?a m" w] by simp
  also have "\<dots> = ?v\<lparr>archives := (archives ?v)
          [?a := (archives ?v ! ?a)\<lparr>phase := Completed, pointer := pointer (archives ?v ! ?a) + m\<rparr>],
       responses := (responses ?v)
         [?r := (commit (responses ?v ! ?r))
                  \<lparr>body := body (responses ?v ! ?r)
                     @ [ArchiveBytes (CentralDirectory (written (archives ?v ! ?a))) m],
                    finished := True\<rparr>],
       console := console ?v @ [(''Archive wrote %d bytes'', VNum (pointer (archives ?v ! ?a) + m))],
       journal := journal ?v @ [(''write'', VResponse ?r), (''pointer'', VArchive ?a),
                               (''log'', VConsole), (''end'', VResponse ?r)]\<rparr>"
    by (rule work_last [OF _ refl _ _ _ _ _ refl]) (simp_all add: v)
  finally show ?thesis
    by (simp add: v commit_def file_chunks_def)
qed

subsection \<open>Entries, files and what is extracted\<close>

lemma extracted_append: "extracted (bs @ bs') = extracted bs @ extracted bs'"
  by (induction bs rule: extracted.induct) simp_all

lemma extracted_file_chunks:
  "length ns = length fs \<Longrightarrow> extracted (file_chunks fs ns) = fs"
proof (induction fs arbitrary: ns)
  case Nil
  then show ?case by (simp add: file_chunks_def)
next
  case (Cons f fs)
  then obtain n ns' where "ns = n # ns'" by (cases ns) auto
  with Cons show ?case by (cases f) (simp add: file_chunks_def)
qed



lemma file_at_nonempty: "file_at l p c \<Longrightarrow> p \<noteq> []"
  by (induction rule: file_at.induct) simp_all

lemma join_path_Cons: "p \<noteq> [] \<Longrightarrow> join_path (n # p) = n @ ''/'' @ join_path p"
  by (cases p) simp_all

lemma set_walk_list:
  "set (walk_list pre l) = (\<Union>(n, k) \<in> set l. set (walk_node (pre @ n) k))"
  by (induction l) auto

lemma walk_sound:
  "(name, Inr c) \<in> set (walk_node q k) \<Longrightarrow>
     (k = File c \<and> name = q) \<or>
     (\<exists>kids p. k = Dir kids \<and> file_at kids p c \<and> name = q @ ''/'' @ join_path p)"
  "(name, Inr c) \<in> set (walk_list pre l) \<Longrightarrow>
     \<exists>p. file_at l p c \<and> name = pre @ join_path p"
proof (induction q k and pre l arbitrary: name c and name c rule: walk_node_walk_list.induct)
  case (1 p c')
  then show ?case by simp
next
  case (2 p m)
  then show ?case by simp
next
  case (3 p kids)
  then show ?case by fastforce
next
  case (4 p)
  then show ?case by simp
next
  case (5 p n k ks)
  from "5.prems" consider
    (head) "(name, Inr c) \<in> set (walk_node (p @ n) k)"
    | (tail) "(name, Inr c) \<in> set (walk_list p ks)"
    by auto
  then show ?case
  proof cases
    case head
    from "5.IH"(1) [OF head] show ?thesis
    proof
      assume "k = File c \<and> name = p @ n"
      then have "file_at ((n, k) # ks) [n] c" by (auto intro: file_at.here)
      then show ?thesis using \<open>k = File c \<and> name = p @ n\<close> by (intro exI [of _ "[n]"]) simp
    next
      assume "\<exists>kids q. k = Dir kids \<and> file_at kids q c \<and> name = (p @ n) @ ''/'' @ join_path q"
      then obtain kids q where k: "k = Dir kids" and q: "file_at kids q c"
        and nm: "name = (p @ n) @ ''/'' @ join_path q" by blast
      have "file_at ((n, k) # ks) (n # q) c" using k q by (auto intro: file_at.below)
      moreover have "name = p @ join_path (n # q)"
        using nm file_at_nonempty [OF q] by (simp add: join_path_Cons)
      ultimately show ?thesis by blast
    qed
  next
    case tail
    from "5.IH"(2) [OF tail] obtain q where q: "file_at ks q c" and nm: "name = p @ join_path q"
      by blast
    have "file_at ((n, k) # ks) q c"
      using q by (cases rule: file_at.cases) (auto intro: file_at.intros)
    then show ?thesis using nm by blast
  qed
qed

lemma walk_complete:
  "file_at l p c \<Longrightarrow> (pre @ join_path p, Inr c) \<in> set (walk_list pre l)"
proof (induction arbitrary: pre rule: file_at.induct)
  case (here n c l)
  then show ?case by (force simp: set_walk_list)
next
  case (below n kids l p c)
  have jp: "join_path (n # p) = n @ ''/'' @ join_path p"
    using file_at_nonempty [OF below.hyps(2)] by (rule join_path_Cons)
  have "(pre @ n @ ''/'' @ join_path p, Inr c) \<in> set (walk_node (pre @ n) (Dir kids))"
    using below.IH [of "pre @ n @ ''/''"] by simp
  then have "(pre @ n @ ''/'' @ join_path p, Inr c)
      \<in> (\<Union>(n, k) \<in> set l. set (walk_node (pre @ n) k))"
    using below.hyps(1) by (intro UN_I [of "(n, Dir kids)"]) simp_all
  then show ?case by (simp only: jp set_walk_list)
qed

lemma walk_files:
  "(name, Inr c) \<in> set (walk_list pre l) \<longleftrightarrow> (\<exists>p. file_at l p c \<and> name = pre @ join_path p)"
  using walk_sound(2) walk_complete by blast

lemma files_of_readable:
  assumes "walk_list [] l = readable fs"
  shows "set fs = {(join_path p, c) | p c. file_at l p c}"
proof -
  have "(name, c) \<in> set fs \<longleftrightarrow> (name, Inr c) \<in> set (walk_list [] l)" for name c
    unfolding assms by (force simp: readable_def)
  then show ?thesis by (auto simp: walk_files)
qed

subsection \<open>A request served to its end\<close>


subsection \<open>What every step keeps\<close>

lemma resp_evolves_refl [simp]: "resp_evolves R R"
  by (simp add: resp_evolves_def split: option.splits)

lemma resp_evolves_trans:
  "resp_evolves R R' \<Longrightarrow> resp_evolves R' R'' \<Longrightarrow> resp_evolves R R''"
  by (auto simp: resp_evolves_def split: option.splits)

lemma arch_evolves_refl [simp]: "arch_evolves A A"
  by (simp add: arch_evolves_def)

lemma arch_evolves_trans:
  "arch_evolves A A' \<Longrightarrow> arch_evolves A' A'' \<Longrightarrow> arch_evolves A A''"
  by (auto simp: arch_evolves_def)

lemma evolves_refl [simp]: "evolves w w"
  by (simp add: evolves_def)

lemma evolves_trans: "evolves w w' \<Longrightarrow> evolves w' w'' \<Longrightarrow> evolves w w''"
  unfolding evolves_def
  by (meson arch_evolves_trans resp_evolves_trans le_trans less_le_trans)

lemma evolves_fields [simp]:
  "evolves w (w\<lparr>journal := j\<rparr>)"
  "evolves w (w\<lparr>console := c\<rparr>)"
  "evolves w (w\<lparr>uncaught := u\<rparr>)"
  "evolves w (w\<lparr>routed := ro\<rparr>)"
  by (simp_all add: evolves_def)

lemma evolves_put_response:
  "r < length (responses w) \<Longrightarrow> resp_evolves (responses w ! r) R' \<Longrightarrow>
   evolves w (put_response r R' w)"
  by (simp add: evolves_def put_response_def nth_list_update)

lemma evolves_put_archive:
  "a < length (archives w) \<Longrightarrow> arch_evolves (archives w ! a) A' \<Longrightarrow>
   evolves w (put_archive a A' w)"
  by (simp add: evolves_def put_archive_def nth_list_update)

lemma tracks_ret [simp]: "tracks (ret a)"
  by (simp add: tracks_def)

lemma tracks_throw [simp]: "tracks (throw e)"
  by (simp add: tracks_def)

lemma tracks_called [simp]: "tracks (called name obj)"
  by (simp add: tracks_def)

lemma tracks_then:
  assumes "tracks m" "\<And>a. tracks (f a)"
  shows "tracks (then_js m f)"
  unfolding tracks_def
proof
  fix w
  obtain x w' where m: "m w = (x, w')" by (cases "m w")
  have 1: "evolves w w'" using assms(1) m by (auto simp: tracks_def dest: spec[of _ w])
  show "evolves w (snd (then_js m f w))"
  proof (cases x)
    case (Inl e)
    then show ?thesis using 1 m by (simp add: then_js_apply)
  next
    case (Inr a)
    have "evolves w' (snd (f a w'))" using assms(2) by (simp add: tracks_def)
    then show ?thesis using 1 m Inr by (auto simp: then_js_apply intro: evolves_trans)
  qed
qed

lemma tracks_ident [simp]: "tracks (ident sc x)"
  by (simp add: ident_def split: option.splits)

lemma tracks_member [simp]: "tracks (member v name)"
  by (simp add: member_def split: val.splits)

lemma tracks_response_method:
  assumes "\<And>r R w. r < length (responses w) \<Longrightarrow> R = responses w ! r \<Longrightarrow>
             evolves w (snd (f r R w))"
  shows "tracks (response_method name obj f)"
  unfolding response_method_def
  apply (rule tracks_then, simp)
  apply (auto simp: tracks_def get_response_def assms split: val.splits option.splits)
  done

lemma tracks_archive_method:
  assumes "\<And>a A w. a < length (archives w) \<Longrightarrow> A = archives w ! a \<Longrightarrow>
             evolves w (snd (f a A w))"
  shows "tracks (archive_method name obj f)"
  unfolding archive_method_def
  apply (rule tracks_then, simp)
  apply (auto simp: tracks_def get_archive_def assms split: val.splits option.splits)
  done

lemma tracks_status [simp]: "tracks (status obj code)"
  unfolding status_def
  by (rule tracks_response_method)
     (auto intro!: evolves_put_response simp: resp_evolves_def split: option.splits)

lemma tracks_send [simp]: "tracks (send obj payload)"
  unfolding send_def
  by (rule tracks_response_method)
     (auto intro!: evolves_put_response simp: resp_evolves_def commit_def split: option.splits)

lemma tracks_end_response [simp]: "tracks (end_response obj)"
  unfolding end_response_def
  by (rule tracks_response_method)
     (auto intro!: evolves_put_response simp: resp_evolves_def commit_def split: option.splits)

lemma tracks_write_chunk [simp]: "tracks (write_chunk r chunk)"
  unfolding write_chunk_def
  by (rule tracks_response_method)
     (auto intro!: evolves_put_response simp: resp_evolves_def commit_def
           split: option.splits val.splits)

lemma tracks_pointer_of [simp]: "tracks (pointer_of obj)"
  unfolding pointer_of_def
  by (rule tracks_archive_method) simp

lemma tracks_console_log [simp]: "tracks (console_log c fmt arg)"
  unfolding console_log_def
  by (rule tracks_then) (auto simp: tracks_def)

lemma tracks_unpipe [simp]: "tracks (unpipe a r)"
  unfolding unpipe_def
  by (rule tracks_then)
     (auto simp: tracks_def get_archive_def arch_evolves_def intro!: evolves_put_archive)

lemma tracks_archive_on_error [simp]: "tracks (archive_on_error sc err)"
  unfolding archive_on_error_def Let_def
  by (intro tracks_then) simp_all

lemma tracks_archive_on_end [simp]: "tracks (archive_on_end sc)"
  unfolding archive_on_end_def
  by (intro tracks_then) simp_all

lemma tracks_respose_on_close [simp]: "tracks (respose_on_close sc)"
  unfolding respose_on_close_def
  by (intro tracks_then) simp_all

lemma tracks_call_listener [simp]: "tracks (call_listener l arg)"
  by (cases l) simp_all

lemma evolves_emit: "evolves w (emit ls arg w)"
proof (induction ls arbitrary: w)
  case Nil
  then show ?case by simp
next
  case (Cons l ls)
  obtain x w' where c: "call_listener l arg w = (x, w')" by (cases "call_listener l arg w")
  have 1: "evolves w w'"
    using tracks_call_listener [of l arg] c by (auto simp: tracks_def dest: spec[of _ w])
  show ?case
  proof (cases x)
    case (Inl e)
    have "evolves w' (w'\<lparr>uncaught := uncaught w' @ [e]\<rparr>)" by simp
    then show ?thesis using 1 c Inl by (auto intro: evolves_trans)
  next
    case (Inr v)
    then show ?thesis using 1 c Cons.IH [of w'] by (auto intro: evolves_trans)
  qed
qed

lemma evolves_emit_archive: "evolves w (emit_archive a ev arg w)"
  by (simp add: emit_archive_def evolves_emit split: option.splits)

lemma evolves_emit_error: "evolves w (emit_error a msg w)"
  by (simp add: emit_error_def evolves_emit split: option.splits)

lemma evolves_work: "evolves w (work a n w)"
proof (cases "a < length (archives w)")
  case False
  then show ?thesis by (simp add: work_def get_archive_def)
next
  case True
  have put: "evolves w (put_archive a A' w)"
    if "format A' = format (archives w ! a)" "level A' = level (archives w ! a)"
       "listeners A' = listeners (archives w ! a)" for A'
    using True that by (intro evolves_put_archive) (simp_all add: arch_evolves_def)
  show ?thesis
    using True
    by (auto simp: work_def get_archive_def split: list.splits sum.splits prod.splits
        intro!: evolves_trans [OF put evolves_emit_archive]
                evolves_trans [OF put evolves_emit_error]
                evolves_trans [OF evolves_trans [OF put evolves_emit_archive] evolves_emit_archive])
qed

lemma evolves_close: "evolves w (close r w)"
proof (cases "r < length (responses w)")
  case False
  then show ?thesis by (simp add: close_def get_response_def)
next
  case True
  have "evolves w (put_response r ((responses w ! r)\<lparr>closed := True\<rparr>) w)"
    using True by (intro evolves_put_response) (simp_all add: resp_evolves_def split: option.splits)
  then show ?thesis
    using True by (auto simp: close_def get_response_def intro: evolves_trans evolves_emit)
qed

lemma evolves_get: "evolves w (get_downloadzip w)"
  by (simp add: get_downloadzip_eq evolves_def nth_append)

lemma evolves_step: "evolves w (step e w)"
  by (cases e) (simp_all add: evolves_work evolves_close evolves_get)

lemma evolves_run: "evolves w (run es w)"
  by (induction es arbitrary: w) (auto intro: evolves_trans evolves_step)

subsection \<open>What the callbacks leave alone\<close>

lemma keeps_then:
  assumes "keeps field m" "\<And>a. keeps field (f a)"
  shows "keeps field (then_js m f)"
  unfolding keeps_def
proof
  fix w
  obtain x w' where m: "m w = (x, w')" by (cases "m w")
  have 1: "field w' = field w" using assms(1) m by (auto simp: keeps_def dest: spec[of _ w])
  show "field (snd (then_js m f w)) = field w"
  proof (cases x)
    case (Inl e)
    then show ?thesis using 1 m by (simp add: then_js_apply)
  next
    case (Inr a)
    have "field (snd (f a w')) = field w'" using assms(2) by (simp add: keeps_def)
    then show ?thesis using 1 m Inr by (simp add: then_js_apply)
  qed
qed

lemma keeps_basic [simp]:
  "keeps field (ret a)" "keeps field (throw e)" "keeps field (ident sc x)"
  "keeps field (member v name)"
  by (simp_all add: keeps_def ident_def member_def split: option.splits val.splits)

lemma keeps_archives_called [simp]: "keeps archives (called name obj)"
  by (simp add: keeps_def)

lemma keeps_responses_called [simp]: "keeps responses (called name obj)"
  by (simp add: keeps_def)

lemma keeps_archives_response_method:
  assumes "\<And>r R w. archives (snd (f r R w)) = archives w"
  shows "keeps archives (response_method name obj f)"
  unfolding response_method_def
  by (rule keeps_then) (auto simp: keeps_def assms split: val.splits option.splits)

lemma keeps_archives_prims [simp]:
  "keeps archives (status obj code)"
  "keeps archives (send obj payload)"
  "keeps archives (end_response obj)"
  "keeps archives (write_chunk r chunk)"
  unfolding status_def send_def end_response_def write_chunk_def
  by (rule keeps_archives_response_method; simp add: put_response_def split: val.splits)+

lemma keeps_pointer_of [simp]:
  "keeps archives (pointer_of obj)" "keeps responses (pointer_of obj)"
  unfolding pointer_of_def archive_method_def
  by (rule keeps_then; auto simp: keeps_def split: val.splits option.splits)+

lemma keeps_console_log [simp]:
  "keeps archives (console_log c fmt arg)" "keeps responses (console_log c fmt arg)"
  unfolding console_log_def
  by (rule keeps_then; auto simp: keeps_def)+

lemma keeps_archives_call_listener:
  "\<not> pipe_close l \<Longrightarrow> keeps archives (call_listener l arg)"
  by (cases l)
     (auto simp: archive_on_error_def archive_on_end_def respose_on_close_def Let_def
           intro!: keeps_then)

lemma archives_emit:
  "\<forall>l \<in> set ls. \<not> pipe_close l \<Longrightarrow> archives (emit ls arg w) = archives w"
proof (induction ls arbitrary: w)
  case Nil
  then show ?case by simp
next
  case (Cons l ls)
  obtain x w' where c: "call_listener l arg w = (x, w')" by (cases "call_listener l arg w")
  have "archives w' = archives w"
    using keeps_archives_call_listener [of l arg] Cons.prems c
    by (auto simp: keeps_def dest: spec[of _ w])
  then show ?case using c Cons by (cases x) auto
qed

lemma archives_work:
  assumes "a < length (archives w)"
    and "\<forall>l \<in> snd ` set (listeners (archives w ! a)). \<not> pipe_close l"
  shows "\<exists>A. archives (work a n w) = (archives w)[a := A]"
proof -
  have em: "archives (emit (listeners_for ev A) arg v) = archives v"
    if "listeners A = listeners (archives w ! a)" for ev A arg v
    using assms(2) that by (intro archives_emit) (auto simp: listeners_for_def)
  have id: "\<exists>A. archives w = (archives w)[a := A]"
    by (rule exI [of _ "archives w ! a"]) simp
  show ?thesis
    using assms(1) id
    by (auto simp: work_def get_archive_def emit_archive_def emit_error_def put_archive_def em
        split: list.splits sum.splits prod.splits)
qed

lemma respose_on_close_eq:
  assumes "a < length (archives w)"
  shows "respose_on_close (request_scope a r) w =
     (Inl (ReferenceError ''res''),
      w\<lparr>console := console w @ [(''Archive wrote %d bytes'', VNum (pointer (archives w ! a)))],
        journal := journal w @ [(''pointer'', VArchive a), (''log'', VConsole)]\<rparr>)"
  using assms by (simp add: prims)

lemma close_raises:
  assumes "a < length (archives w)" "r < length (responses w)"
    and "closeListeners (responses w ! r) = [PipeOnClose a r, ResposeOnClose (request_scope a r)]"
    and "\<not> closed (responses w ! r)"
  shows "uncaught (close r w) = uncaught w @ [ReferenceError ''res'']"
  using assms by (simp add: close_def prims)

subsection \<open>The objects of a request, in every later world\<close>

lemma request_evolves:
  "evolves (get_downloadzip w) (run evs (get_downloadzip w))"
  by (rule evolves_run)

lemma request_objects:
  assumes "w' = run evs (get_downloadzip w)"
  shows "length (archives w) < length (archives w')"
    and "length (responses w) < length (responses w')"
    and "resp_evolves (handler_response (length (archives w)) (length (responses w)))
           (responses w' ! length (responses w))"
    and "arch_evolves (handler_archive (length (archives w)) (length (responses w))
           (walk_list [] (readdir w ''Test/''))) (archives w' ! length (archives w))"
  using evolves_run [of "get_downloadzip w" evs] assms
  by (auto simp: evolves_def get_downloadzip_eq nth_append
      dest: spec [of _ "length (responses w)"] spec [of _ "length (archives w)"])

lemma request_listeners:
  assumes "w' = run evs (get_downloadzip w)"
  shows "\<forall>l \<in> snd ` set (listeners (archives w' ! length (archives w))). \<not> pipe_close l"
  using request_objects(4) [OF assms]
  by (auto simp: arch_evolves_def own_listeners_def pipe_listeners_def)


section \<open>The claims\<close>

subsection \<open>C1: the answer to a failed construction\<close>

text \<open>
  C1, as amended. When the construction of the archive fails before any byte of the
  archive was written to the response (the first file to be read cannot be read), the
  handler answers with status 500 and the body \<^verbatim>\<open>{"error": <message>}\<close>, where the
  message is that of the failure; nothing was committed with status 200, and no
  exception escapes.
\<close>

theorem C1_failure_before_first_byte:
  assumes "walk_list [] (readdir w ''Test/'') = (name, Inl msg) # rest"
  shows "responses (run [Get, Work (length (archives w)) n] w) ! length (responses w) =
           (handler_response (length (archives w)) (length (responses w)))
             \<lparr>statusCode := 500, committed := Some (500, [disposition]),
              body := [Payload (VObj [(''error'', VStr msg)])], finished := True\<rparr>
         \<and> uncaught (run [Get, Work (length (archives w)) n] w) = uncaught w"
proof -
  let ?a = "length (archives w)" and ?r = "length (responses w)"
  let ?w = "get_downloadzip w"
  have "work ?a n ?w =
     ?w\<lparr>archives := (archives ?w)[?a := (archives ?w ! ?a)\<lparr>phase := Failed\<rparr>],
       responses := (responses ?w)
         [?r := (handler_response ?a ?r)\<lparr>statusCode := 500,
                 committed := Some (500, headers (handler_response ?a ?r)),
                 body := [Payload (VObj [(''error'', VStr msg)])], finished := True\<rparr>],
       journal := journal ?w @ [(''status'', VResponse ?r), (''send'', VResponse ?r)]\<rparr>"
    by (rule work_broken_first [where name = name and rest = rest])
       (simp_all add: get_downloadzip_eq assms)
  then show ?thesis
    by (simp add: get_downloadzip_eq)
qed

theorem C1_failure_before_first_byte_witness:
  "responses (run [Get, Work 0 0] (boot disk_first_unreadable)) ! 0 =
     (handler_response 0 0)
       \<lparr>statusCode := 500, committed := Some (500, [disposition]),
        body := [Payload (VObj [(''error'', VStr ''EACCES: permission denied'')])],
        finished := True\<rparr>
   \<and> uncaught (run [Get, Work 0 0] (boot disk_first_unreadable)) = []"
  using C1_failure_before_first_byte
    [of "boot disk_first_unreadable" "''a.txt''" "''EACCES: permission denied''"
        "[(''b.txt'', Inr [98])]" 0]
  by (simp add: disk_first_unreadable_def)

text \<open>
  C1 as stated fails when a file was archived before the failure: the record of
  \<^verbatim>\<open>a.txt\<close> went out under status 200, the construction then failed, the response keeps
  the partial archive as its body and gets no error body, and the \<^verbatim>\<open>send\<close> of the
  error callback throws.
\<close>

theorem C1_counterexample:
  "phase (archives partial_failure ! 0) = Failed
   \<and> committed (responses partial_failure ! 0) = Some (200, [disposition])
   \<and> body (responses partial_failure ! 0) = [ArchiveBytes (FileRecord ''a.txt'' [97]) 10]
   \<and> uncaught partial_failure = [HeadersSent]"
  by (simp add: partial_failure_def disk_second_unreadable_def evaluate)

subsection \<open>C2: the callback of the response's closure\<close>

text \<open>
  C2. The callback that \<^verbatim>\<open>downloadZip\<close> registers for the \<^verbatim>\<open>'close'\<close> event of the
  response refers to \<^verbatim>\<open>res\<close>, which no enclosing scope binds. In every world that a run
  reaches after the request, the callback is still registered, executing it raises the
  reference error for \<^verbatim>\<open>res\<close>, and when the response closes that error is thrown out
  of the event.
\<close>

theorem C2_close_callback_reference_error:
  "map_of (request_scope (length (archives w)) (length (responses w))) ''res'' = None
   \<and> closeListeners (responses (run evs (get_downloadzip w)) ! length (responses w)) =
       [PipeOnClose (length (archives w)) (length (responses w)),
        ResposeOnClose (request_scope (length (archives w)) (length (responses w)))]
   \<and> fst (respose_on_close (request_scope (length (archives w)) (length (responses w)))
            (run evs (get_downloadzip w))) = Inl (ReferenceError ''res'')
   \<and> (closed (responses (run evs (get_downloadzip w)) ! length (responses w))
      \<or> uncaught (close (length (responses w)) (run evs (get_downloadzip w))) =
          uncaught (run evs (get_downloadzip w)) @ [ReferenceError ''res''])"
proof -
  let ?a = "length (archives w)" and ?r = "length (responses w)"
  let ?w = "run evs (get_downloadzip w)"
  note o = request_objects [OF refl, where w = w and evs = evs]
  have cl: "closeListeners (responses ?w ! ?r) = [PipeOnClose ?a ?r, ResposeOnClose (request_scope ?a ?r)]"
    using o(3) by (simp add: resp_evolves_def)
  have cb: "fst (respose_on_close (request_scope ?a ?r) ?w) = Inl (ReferenceError ''res'')"
    using o(1) by (simp add: respose_on_close_eq)
  have "uncaught (close ?r ?w) = uncaught ?w @ [ReferenceError ''res'']"
    if "\<not> closed (responses ?w ! ?r)"
    using o(1,2) cl that by (rule close_raises)
  then show ?thesis using cl cb by (auto simp: request_scope_def)
qed

subsection \<open>C3: one completion\<close>



subsection \<open>C4: an error that nothing catches\<close>

text \<open>
  C4 fails on the code. For an empty source directory the archive is served under
  status 200; when the response then closes, the callback of \<^verbatim>\<open>'close'\<close> raises the
  reference error for \<^verbatim>\<open>res\<close>, which nothing in \<^verbatim>\<open>downloadZip\<close> catches and which is
  not turned into the 500 response.
\<close>

theorem C4_close_callback_uncaught:
  "uncaught empty_served = [ReferenceError ''res'']
   \<and> committed (responses empty_served ! 0) = Some (200, [disposition])
   \<and> body (responses empty_served ! 0) = [ArchiveBytes (CentralDirectory []) 22]
   \<and> routed empty_served = []"
  by (simp add: empty_served_def disk_empty_def evaluate)

subsection \<open>C5: the archive after the client went away\<close>




subsection \<open>C6: the archive of the directory\<close>

text \<open>
  C6. For a request whose files can all be read, the response is committed under status
  200 and its body is the record of each file, in the order of the traversal, followed
  by the central directory that names them. What is extracted from it are the files of
  the source directory, each under its path below the root: the handler passes
  \<^verbatim>\<open>false\<close> as the destination, which puts no prefix before the names, so the root is
  no part of any name and has no entry of its own.
\<close>

theorem C6_archive_of_the_directory:
  assumes "walk_list [] (readdir w ''Test/'') = readable fs" "length ns = length fs"
  shows "(let a = length (archives w); r = length (responses w);
              v = run (Get # map (Work a) ns @ [Work a m]) w
          in committed (responses v ! r) = Some (200, [disposition])
             \<and> finished (responses v ! r)
             \<and> body (responses v ! r) =
                  file_chunks fs ns @ [ArchiveBytes (CentralDirectory (map fst fs)) m]
             \<and> extracted (body (responses v ! r)) = fs
             \<and> set fs = {(join_path p, c) | p c. file_at (readdir w ''Test/'') p c}
             \<and> dest_prefix ''Test/'' (VBool False) = []
             \<and> uncaught v = uncaught w)"
proof -
  note v = served_all [OF assms, of m]
  have "extracted (file_chunks fs ns @ [ArchiveBytes (CentralDirectory (map fst fs)) m]) = fs"
    using assms(2) by (simp add: extracted_append extracted_file_chunks)
  moreover note files_of_readable [OF assms(1)]
  ultimately show ?thesis
    unfolding Let_def by (simp only: v) (simp add: dest_prefix_def)
qed

theorem C6_archive_of_the_directory_witness:
  "extracted (body (responses (run [Get, Work 0 10, Work 0 7, Work 0 22] (boot disk_two_files)) ! 0))
     = [(''a.txt'', [97]), (''sub/b.txt'', [98])]
   \<and> {(''a.txt'', [97]), (''sub/b.txt'', [98])} =
       {(join_path p, c) | p c. file_at (disk_two_files ''Test/'') p c}
   \<and> committed (responses (run [Get, Work 0 10, Work 0 7, Work 0 22] (boot disk_two_files)) ! 0)
       = Some (200, [disposition])"
  using C6_archive_of_the_directory
    [of "boot disk_two_files" "[(''a.txt'', [97]), (''sub/b.txt'', [98])]" "[10, 7]" 22]
  by (simp add: disk_two_files_def readable_def Let_def file_chunks_def)

subsection \<open>C7: the metadata and the first byte of the body\<close>

text \<open>
  C7. When the handler returns, the response has the header
  \<^verbatim>\<open>Content-Disposition: attachment; filename="folder.zip"\<close> and nothing of it has been
  sent. In every world that a run reaches afterwards, either nothing is committed and
  the body is empty, or what was committed with the first byte carries that header.
\<close>

theorem C7_metadata_before_body:
  "headers (responses (get_downloadzip w) ! length (responses w)) = [disposition]
   \<and> committed (responses (get_downloadzip w) ! length (responses w)) = None
   \<and> body (responses (get_downloadzip w) ! length (responses w)) = []
   \<and> (case committed (responses (run evs (get_downloadzip w)) ! length (responses w)) of
        None \<Rightarrow> body (responses (run evs (get_downloadzip w)) ! length (responses w)) = []
      | Some (s, hs) \<Rightarrow> hs = [disposition])
   \<and> disposition = (''Content-Disposition'', ''attachment; filename=\"folder.zip\"'')"
proof -
  note o = request_objects [OF refl, where w = w and evs = evs]
  show ?thesis
    using o(3)
    by (auto simp: get_downloadzip_eq resp_evolves_def disposition_def content_disposition_def
        split: option.splits)
qed

subsection \<open>C8: one archiver for each request\<close>

text \<open>
  C8. Every invocation of \<^verbatim>\<open>downloadZip\<close> appends a new archiver object to the store,
  of level 9, and leaves the archives that were there as they are. The scope of the
  handler binds \<^verbatim>\<open>archive\<close> to that object and the module binds no such name. For two
  requests the archives differ, and in every later world the work of one archive leaves
  the other archive as it is.
\<close>

theorem C8_archiver_per_request:
  "archives (get_downloadzip w) =
     archives w @ [handler_archive (length (archives w)) (length (responses w))
                     (walk_list [] (readdir w ''Test/''))]
   \<and> level (archives (run evs (get_downloadzip w)) ! length (archives w)) = 9
   \<and> map_of (request_scope (length (archives w)) (length (responses w))) ''archive'' =
       Some (VArchive (length (archives w)))
   \<and> map_of module_scope ''archive'' = None
   \<and> (let a1 = length (archives w);
           v = run evs (get_downloadzip w);
           a2 = length (archives v);
           w2 = run evs' (get_downloadzip v)
       in a1 < a2
          \<and> archives (work a2 n w2) ! a1 = archives w2 ! a1
          \<and> archives (work a1 n w2) ! a2 = archives w2 ! a2)"
proof -
  let ?a1 = "length (archives w)"
  let ?v = "run evs (get_downloadzip w)"
  let ?a2 = "length (archives ?v)"
  let ?w2 = "run evs' (get_downloadzip ?v)"
  note o = request_objects [OF refl, where w = w and evs = evs]
  note o2 = request_objects [OF refl, where w = ?v and evs = evs']
  have lt: "?a1 < ?a2" by (rule o(1))
  have l1: "\<forall>l \<in> snd ` set (listeners (archives ?w2 ! ?a1)). \<not> pipe_close l"
    using request_listeners [OF refl, where w = w and evs = "evs @ Get # evs'"] by (simp add: run_append)
  have l2: "\<forall>l \<in> snd ` set (listeners (archives ?w2 ! ?a2)). \<not> pipe_close l"
    by (rule request_listeners [OF refl, where w = ?v and evs = evs'])
  have "?a1 < length (archives ?w2)" using lt o2(1) by simp
  from archives_work [OF this l1, of n]
  have w1: "archives (work ?a1 n ?w2) ! ?a2 = archives ?w2 ! ?a2" using lt by auto
  from archives_work [OF o2(1) l2, of n]
  have w2: "archives (work ?a2 n ?w2) ! ?a1 = archives ?w2 ! ?a1" using lt by auto
  have lv: "level (archives ?v ! ?a1) = 9" using o(4) by (simp add: arch_evolves_def)
  show ?thesis
    using lt w1 w2 lv by (simp add: get_downloadzip_eq request_scope_def Let_def)
qed

subsection \<open>C9: two requests over the same directory\<close>



subsection \<open>C10: the attachment header on the error response\<close>



end
